theory Spec2Isabelle
  imports Complex_Main "HOL-Library.Word" "HOL-Library.Multiset"
begin

section \<open>The adjacency list (glass.go, \<open>adjList\<close>, \<open>add\<close>, \<open>link\<close>)\<close>

text \<open>
  \<open>adjList.l\<close> is a Go \<open>map[xy]map[xy]bool\<close>. The keys are the coordinate structs
  \<open>xy\<close>; the graph code uses nothing of a key but its equality, so the key type is a
  parameter \<open>'k\<close>. The inner map only ever receives the value \<open>true\<close> (\<open>add\<close> is
  its single writer) and is only ever ranged over by key, so it is the set of its keys.
\<close>

type_synonym 'k adjList = "'k \<rightharpoonup> 'k set"

text \<open>\<open>l.l[k]\<close> read as a set of neighbours: a missing key reads as the nil map, which
  ranges over nothing.\<close>

definition neighbors :: "'k adjList \<Rightarrow> 'k \<Rightarrow> 'k set" where
  "neighbors l k = (case l k of None \<Rightarrow> {} | Some v \<Rightarrow> v)"

text \<open>\<open>func (l *adjList) add(a, b *point)\<close>: create the inner map when it is nil, then
  set \<open>l.l[a.xy()][b.xy()] = true\<close>. The arguments are the two keys \<open>a.xy()\<close> and
  \<open>b.xy()\<close>.\<close>

definition add :: "'k adjList \<Rightarrow> 'k \<Rightarrow> 'k \<Rightarrow> 'k adjList" where
  "add l a b =
     (let l1 = (if l a = None then l(a \<mapsto> {}) else l)
      in l1(a \<mapsto> insert b (neighbors l1 a)))"

text \<open>\<open>func (l *adjList) link(a, b kdtree.Point)\<close>: \<open>l.add(aa, bb); l.add(bb, aa)\<close>.\<close>

definition link :: "'k adjList \<Rightarrow> 'k \<Rightarrow> 'k \<Rightarrow> 'k adjList" where
  "link l a b = add (add l a b) b a"

text \<open>The construction of the graph is a sequence of \<open>link\<close> calls on the map that
  \<open>main\<close> creates empty (\<open>make(map[xy]map[xy]bool)\<close>); \<open>link\<close> is the only caller of
  \<open>add\<close>.\<close>

fun links :: "'k adjList \<Rightarrow> ('k \<times> 'k) list \<Rightarrow> 'k adjList" where
  "links l [] = l"
| "links l ((a, b) # ps) = links (link l a b) ps"

definition symmetric :: "'k adjList \<Rightarrow> bool" where
  "symmetric l = (\<forall>a b. (a \<in> neighbors l b) = (b \<in> neighbors l a))"

section \<open>The elimination order (glass.go, \<open>enStack\<close>)\<close>

text \<open>
  \<open>seen\<close> is a \<open>map[xy]bool\<close> that only ever receives \<open>true\<close>; \<open>colorPoints\<close> passes it
  empty. It is the set of its keys, \<open>len(seen)\<close> is its cardinality and \<open>len(l.l)\<close> is
  the cardinality of the domain of the adjacency map.

  The inner loop of the scan counts the neighbours \<open>n\<close> of \<open>k\<close> with \<open>!seen[n]\<close>.
\<close>

definition deg :: "'k adjList \<Rightarrow> 'k set \<Rightarrow> 'k \<Rightarrow> nat" where
  "deg l seen k = card {n \<in> neighbors l k. n \<notin> seen}"

text \<open>
  Go leaves the iteration order of \<open>range\<close> over a map to the runtime, which picks a
  different one from one \<open>range\<close> statement to the next. The order is therefore an
  input of the model: each \<open>range l.l\<close> statement receives the list of keys in the
  order in which the runtime delivers them.

  The first loop of \<open>enStack\<close> returns at the first key \<open>k\<close> of that order with
  \<open>deg < 6 && !seen[k]\<close>.
\<close>

fun scan :: "'k adjList \<Rightarrow> 'k set \<Rightarrow> 'k list \<Rightarrow> 'k option" where
  "scan l seen [] = None"
| "scan l seen (k # ks) =
     (if deg l seen k < 6 \<and> k \<notin> seen then Some k else scan l seen ks)"

text \<open>
  \<open>func (l *adjList) enStack(seen map[xy]bool) []xy\<close>. Every call runs the first
  \<open>range l.l\<close> loop and, when that loop ends without returning, the second one, whose
  body returns in its first iteration. The first argument lists, call by call, the pair
  of key orders the runtime delivers to these two loops; a run that recurses deeper than
  the list is long has not returned, which is \<open>None\<close>. \<open>return nil\<close> is the empty
  list.
\<close>

fun enStack :: "('k list \<times> 'k list) list \<Rightarrow> 'k adjList \<Rightarrow> 'k set \<Rightarrow> 'k list option" where
  "enStack [] l seen = None"
| "enStack ((ks1, ks2) # os) l seen =
     (case scan l seen ks1 of
        Some k \<Rightarrow>
          (if card (insert k seen) = card (dom l) then Some [k]
           else map_option ((#) k) (enStack os l (insert k seen)))
      | None \<Rightarrow>
          (case ks2 of
             [] \<Rightarrow> Some []
           | k # _ \<Rightarrow>
               (if card (insert k seen) = card (dom l) then Some [k]
                else map_option ((#) k) (enStack os l (insert k seen)))))"

text \<open>The orders a run can meet: every \<open>range l.l\<close> delivers exactly the keys of the
  map.\<close>

definition orders_ok :: "'k adjList \<Rightarrow> ('k list \<times> 'k list) list \<Rightarrow> bool" where
  "orders_ok l os = list_all (\<lambda>(ks1, ks2). set ks1 = dom l \<and> set ks2 = dom l) os"

text \<open>
  The bound that the threshold 6 of the scan aims at: every non-empty set of vertices
  has a vertex with fewer than 6 neighbours inside the set (the graph is 5-degenerate).
\<close>

definition degenerate :: "'k adjList \<Rightarrow> bool" where
  "degenerate l =
     (\<forall>U. U \<subseteq> dom l \<and> U \<noteq> {} \<longrightarrow> (\<exists>k\<in>U. card (neighbors l k \<inter> U) < 6))"

text \<open>An elimination order in which every vertex has fewer than 6 neighbours among the
  vertices that follow it.\<close>

fun good_order :: "'k adjList \<Rightarrow> 'k list \<Rightarrow> bool" where
  "good_order l [] = True"
| "good_order l (k # ks) = (card (neighbors l k \<inter> set ks) < 6 \<and> good_order l ks)"

section \<open>The colouring (glass.go, \<open>colorPoints\<close>)\<close>

text \<open>\<open>color.RGBA{R, G, B, A}\<close>, four \<open>uint8\<close> fields.\<close>

datatype color = RGBA "8 word" "8 word" "8 word" "8 word"

text \<open>The package variable \<open>colors\<close>, as it is initialised.\<close>

definition colors :: "color list" where
  "colors = [RGBA 155 17 30 255, RGBA 190 83 28 255, RGBA 241 196 0 255,
             RGBA 19 104 67 255, RGBA 135 206 235 255, RGBA 89 49 95 255]"

text \<open>The colour \<open>main\<close> gives every site when it creates it.\<close>

definition initColor :: color where
  "initColor = RGBA 0 0 0 255"

text \<open>
  The state \<open>colorPoints\<close> works on. A site is identified by its coordinates (the
  key type \<open>'k\<close>): \<open>col\<close> holds the \<open>color\<close> field of every site, \<open>pal\<close> is the
  package variable \<open>colors\<close>, which \<open>rand.Shuffle\<close> permutes in place, and \<open>writes\<close>
  records every assignment \<open>p.color = c\<close> in the order in which it is executed.
\<close>

record 'k cstate =
  col :: "'k \<Rightarrow> color"
  pal :: "color list"
  writes :: "('k \<times> color) list"

text \<open>The state in which \<open>main\<close> calls \<open>colorPoints\<close>.\<close>

definition initState :: "'k cstate" where
  "initState = \<lparr>col = (\<lambda>_. initColor), pal = colors, writes = []\<rparr>"

text \<open>The inner loop \<open>for _, c := range colors { if !seen[c] { p.color = c } }\<close>. It
  has no \<open>break\<close>: it runs over the whole palette.\<close>

fun assign :: "color set \<Rightarrow> 'k \<Rightarrow> color list \<Rightarrow> 'k cstate \<Rightarrow> 'k cstate" where
  "assign seen p [] st = st"
| "assign seen p (c # cs) st =
     assign seen p cs
       (if c \<notin> seen then st\<lparr>col := (col st)(p := c), writes := writes st @ [(p, c)]\<rparr> else st)"

text \<open>
  One iteration of the outer loop, for the index \<open>i\<close>. Two things come from outside
  the repository and are parameters: \<open>nn q\<close> is the site \<open>tree.KNN(q.point(), 1)[0]\<close>
  of the k-d tree, and \<open>shuffle i\<close> is the permutation that \<open>rand.Shuffle\<close> applies to
  \<open>colors\<close> in this iteration. \<open>seen\<close> collects the colour of the nearest site of every
  neighbour key of \<open>p\<close>, whatever that colour is.
\<close>

definition colorStep ::
  "('k \<Rightarrow> 'k) \<Rightarrow> (nat \<Rightarrow> color list \<Rightarrow> color list) \<Rightarrow> 'k adjList \<Rightarrow> 'k list \<Rightarrow> nat \<Rightarrow>
   'k cstate \<Rightarrow> 'k cstate" where
  "colorStep nn shuffle al stack i st =
     (let p = nn (stack ! i);
          seen = (\<lambda>n. col st (nn n)) ` neighbors al p;
          st1 = st\<lparr>pal := shuffle i (pal st)\<rparr>
      in assign seen p (pal st1) st1)"

text \<open>\<open>for i := len(stack) - 1; i >= 0; i--\<close>: the third argument counts the
  iterations that are left, so the next index is one below it.\<close>

fun colorLoop ::
  "('k \<Rightarrow> 'k) \<Rightarrow> (nat \<Rightarrow> color list \<Rightarrow> color list) \<Rightarrow> 'k adjList \<Rightarrow> 'k list \<Rightarrow> nat \<Rightarrow>
   'k cstate \<Rightarrow> 'k cstate" where
  "colorLoop nn shuffle al stack 0 st = st"
| "colorLoop nn shuffle al stack (Suc i) st =
     colorLoop nn shuffle al stack i (colorStep nn shuffle al stack i st)"

text \<open>\<open>func colorPoints(tree, points, al)\<close>; \<open>points\<close> is not used by the body. The
  call \<open>al.enStack(map[xy]bool{})\<close> may not return, and then neither does
  \<open>colorPoints\<close>.\<close>

definition colorPoints ::
  "('k \<Rightarrow> 'k) \<Rightarrow> (nat \<Rightarrow> color list \<Rightarrow> color list) \<Rightarrow> ('k list \<times> 'k list) list \<Rightarrow>
   'k adjList \<Rightarrow> 'k cstate \<Rightarrow> 'k cstate option" where
  "colorPoints nn shuffle os al st =
     (case enStack os al {} of
        None \<Rightarrow> None
      | Some stack \<Rightarrow> Some (colorLoop nn shuffle al stack (length stack) st))"

text \<open>The palette colours, in palette order, that are not in \<open>seen\<close>.\<close>

definition unseen :: "color set \<Rightarrow> color list \<Rightarrow> color list" where
  "unseen seen cs = filter (\<lambda>c. c \<notin> seen) cs"

text \<open>
  The invariant of the outer loop when \<open>j\<close> iterations are left: the sites of
  \<open>drop j stack\<close> carry palette colours that differ along every edge between them, the
  sites of \<open>take j stack\<close> carry no palette colour yet.
\<close>

definition coloring_inv :: "'k adjList \<Rightarrow> 'k list \<Rightarrow> nat \<Rightarrow> 'k cstate \<Rightarrow> bool" where
  "coloring_inv al stack j st =
     (set (pal st) = set colors \<and>
      (\<forall>k\<in>set (drop j stack). col st k \<in> set colors) \<and>
      (\<forall>k\<in>set (take j stack). col st k \<notin> set colors) \<and>
      (\<forall>u\<in>set (drop j stack). \<forall>v\<in>set (drop j stack).
          v \<in> neighbors al u \<longrightarrow> col st u \<noteq> col st v))"


section \<open>Concrete graphs and runs\<close>

text \<open>The permutation that leaves the palette as it is, one of the outcomes of
  \<open>rand.Shuffle\<close>; the nearest site of a site's own coordinates is that site.\<close>

definition keep :: "nat \<Rightarrow> color list \<Rightarrow> color list" where
  "keep i cs = cs"

definition self :: "int \<Rightarrow> int" where
  "self k = k"

text \<open>Two adjacent sites, and two choices of the runtime's iteration orders.\<close>

definition g2 :: "int adjList" where
  "g2 = link Map.empty 0 1"

definition os2 :: "(int list \<times> int list) list" where
  "os2 = [([0, 1], [0, 1]), ([0, 1], [0, 1])]"

definition os2r :: "(int list \<times> int list) list" where
  "os2r = [([1, 0], [1, 0]), ([1, 0], [1, 0])]"

text \<open>The complete graph on a list of keys.\<close>

definition complete :: "int list \<Rightarrow> int adjList" where
  "complete ks = (\<lambda>k. if k \<in> set ks then Some (set ks - {k}) else None)"

definition k7 :: "int adjList" where
  "k7 = complete [0, 1, 2, 3, 4, 5, 6]"

definition k8 :: "int adjList" where
  "k8 = complete [0, 1, 2, 3, 4, 5, 6, 7]"

text \<open>Seven mutually adjacent sites and an eighth one adjacent to site 0 only.\<close>

definition g8 :: "int adjList" where
  "g8 = link k7 0 7"

definition up7 :: "int list" where
  "up7 = [0, 1, 2, 3, 4, 5, 6]"

definition up8 :: "int list" where
  "up8 = [0, 1, 2, 3, 4, 5, 6, 7]"

text \<open>Iteration orders for \<open>g8\<close>: the second \<open>range\<close> of the second call starts at
  key 7.\<close>

definition os8 :: "(int list \<times> int list) list" where
  "os8 = [(up8, up8), (up8, [7, 0, 1, 2, 3, 4, 5, 6]), (up8, up8), (up8, up8), (up8, up8),
          (up8, up8), (up8, up8), (up8, up8), (up8, up8)]"

text \<open>Iteration orders for \<open>k7\<close> and for \<open>k8\<close>; in the second call on \<open>k8\<close> the
  second \<open>range\<close> starts at key 1.\<close>

definition os7 :: "(int list \<times> int list) list" where
  "os7 = [(up7, up7), (up7, up7), (up7, up7), (up7, up7), (up7, up7), (up7, up7), (up7, up7)]"

definition osk8 :: "(int list \<times> int list) list" where
  "osk8 = [(up8, up8), (up8, [1, 0, 2, 3, 4, 5, 6, 7]), (up8, up8), (up8, up8), (up8, up8),
           (up8, up8), (up8, up8), (up8, up8)]"

text \<open>The state of the run on \<open>k7\<close> before its last iteration, which is the one for
  site 0: the six neighbours of site 0 carry the six palette colours.\<close>

definition exhausted7 :: "int cstate" where
  "exhausted7 =
     \<lparr>col = (\<lambda>_. initColor)(1 := RGBA 155 17 30 255, 2 := RGBA 190 83 28 255,
              3 := RGBA 241 196 0 255, 4 := RGBA 19 104 67 255, 5 := RGBA 135 206 235 255,
              6 := RGBA 89 49 95 255),
      pal = colors, writes = []\<rparr>"

section \<open>Bisector sampling (glass.go, \<open>line\<close>, \<open>perp\<close>, \<open>biscector\<close>, \<open>drawNear\<close>)\<close>

text \<open>
  A site's \<open>vec\<close> always has the two entries \<open>vec[0]\<close> and \<open>vec[1]\<close>; it is a pair,
  and so is the key \<open>xy\<close> made of it. The coordinates of the sites and the coefficients
  of a line are finite and are modelled as real numbers: rounding is not modelled. The
  coordinate that \<open>drawNear\<close> computes for a sample is the result of a division, which
  in Go does not panic on a zero divisor but yields an infinity or NaN. Such a result is
  \<open>None\<close> here, a finite one is \<open>Some r\<close>; every operation on a non-finite operand
  that the code performs yields a non-finite result again.
\<close>

type_synonym vec = "real \<times> real"

type_synonym f64 = "real option"

definition fdiv :: "real \<Rightarrow> real \<Rightarrow> f64" where
  "fdiv u v = (if v = 0 then None else Some (u / v))"

definition fneg :: "f64 \<Rightarrow> f64" where
  "fneg u = (case u of None \<Rightarrow> None | Some r \<Rightarrow> Some (- r))"

definition fmul :: "f64 \<Rightarrow> f64 \<Rightarrow> f64" where
  "fmul u v = (case u of None \<Rightarrow> None | Some r \<Rightarrow> (case v of None \<Rightarrow> None | Some s \<Rightarrow> Some (r * s)))"

definition fadd :: "f64 \<Rightarrow> f64 \<Rightarrow> f64" where
  "fadd u v = (case u of None \<Rightarrow> None | Some r \<Rightarrow> (case v of None \<Rightarrow> None | Some s \<Rightarrow> Some (r + s)))"

definition fsub :: "f64 \<Rightarrow> f64 \<Rightarrow> f64" where
  "fsub u v = (case u of None \<Rightarrow> None | Some r \<Rightarrow> (case v of None \<Rightarrow> None | Some s \<Rightarrow> Some (r - s)))"

text \<open>\<open>func (p *point) Distance(o kdtree.Point) float64\<close>, the squared distance, for a
  sample \<open>p\<close> and a site \<open>q\<close> (the source's \<open>o\<close>): the loop over the two dimensions, unrolled.\<close>

definition Distance :: "f64 \<times> f64 \<Rightarrow> vec \<Rightarrow> f64" where
  "Distance p q =
     (let t0 = fsub (fst p) (Some (fst q));
          r0 = fadd (Some 0) (fmul t0 t0);
          t1 = fsub (snd p) (Some (snd q))
      in fadd r0 (fmul t1 t1))"

text \<open>\<open>math.Abs(n.Distance(n0)-n.Distance(n1)) < 1\<close>; the absolute value of a non-finite
  number is \<open>+Inf\<close> or NaN, for which the comparison is false.\<close>

definition near :: "f64 \<times> f64 \<Rightarrow> vec \<Rightarrow> vec \<Rightarrow> bool" where
  "near n n0 n1 =
     (case fsub (Distance n n0) (Distance n n1) of None \<Rightarrow> False | Some d \<Rightarrow> \<bar>d\<bar> < 1)"

text \<open>The package variables \<open>maxX = 58 * 40\<close> and \<open>maxY = 20 * 40\<close>; nothing assigns
  to them.\<close>

definition maxX :: nat where
  "maxX = 58 * 40"

definition maxY :: nat where
  "maxY = 20 * 40"

text \<open>
  What \<open>drawNear\<close> changes and what it asks: \<open>adj\<close> is the adjacency list \<open>al\<close>,
  \<open>samples\<close> lists the points \<open>n\<close> handed to \<open>tree.KNN(n, 2)\<close>, in order. The image
  is only written to and is left out.
\<close>

record dstate =
  adj :: "vec adjList"
  samples :: "(f64 \<times> f64) list"

definition emptyD :: dstate where
  "emptyD = \<lparr>adj = Map.empty, samples = []\<rparr>"

text \<open>The body that both loops of \<open>drawNear\<close> share once the sample \<open>n\<close> is built.
  \<open>knn2 n\<close> is the pair \<open>nns[0], nns[1]\<close> of sites that \<open>tree.KNN(n, 2)\<close> returns (the
  k-d tree is not part of the repository).\<close>

definition probe :: "(f64 \<times> f64 \<Rightarrow> vec \<times> vec) \<Rightarrow> f64 \<times> f64 \<Rightarrow> dstate \<Rightarrow> dstate" where
  "probe knn2 n st =
     (let n0 = fst (knn2 n); n1 = snd (knn2 n);
          st1 = st\<lparr>samples := samples st @ [n]\<rparr>
      in if near n n0 n1 then st1\<lparr>adj := link (adj st1) n0 n1\<rparr> else st1)"

text \<open>\<open>type line struct { a, b, c float64 }\<close>\<close>

record line =
  a :: real
  b :: real
  c :: real

text \<open>\<open>func (p *point) line(o *point) line\<close>; the argument \<open>o\<close> is \<open>q\<close> here.\<close>

definition line :: "vec \<Rightarrow> vec \<Rightarrow> line" where
  "line p q = \<lparr>a = snd p - snd q, b = fst q - fst p, c = snd p * fst q - snd q * fst p\<rparr>"

text \<open>\<open>func (l line) perp(p *point) line\<close>\<close>

definition perp :: "line \<Rightarrow> vec \<Rightarrow> line" where
  "perp l p = \<lparr>a = b l, b = - a l, c = b l * fst p - a l * snd p\<rparr>"

text \<open>\<open>func (p *point) biscector(o *point) line\<close>: the perpendicular through the
  midpoint \<open>mp\<close>.\<close>

definition biscector :: "vec \<Rightarrow> vec \<Rightarrow> line" where
  "biscector p q =
     (let mp = ((fst p + fst q) / 2, (snd p + snd q) / 2) in perp (line p q) mp)"

text \<open>\<open>y := -(l.a/l.b)*float64(x) + l.c/l.b\<close> and
  \<open>x := -(l.b/l.a)*float64(y) + l.c/l.a\<close>\<close>

definition ysample :: "line \<Rightarrow> nat \<Rightarrow> f64" where
  "ysample l i = fadd (fmul (fneg (fdiv (a l) (b l))) (Some (real i))) (fdiv (c l) (b l))"

definition xsample :: "line \<Rightarrow> nat \<Rightarrow> f64" where
  "xsample l j = fadd (fmul (fneg (fdiv (b l) (a l))) (Some (real j))) (fdiv (c l) (a l))"

text \<open>\<open>for x := 0; x < maxX; x++ { ... }\<close> from the counter value \<open>i\<close> on.\<close>

function xloop :: "(f64 \<times> f64 \<Rightarrow> vec \<times> vec) \<Rightarrow> line \<Rightarrow> nat \<Rightarrow> dstate \<Rightarrow> dstate" where
  "xloop knn2 l i st =
     (if i < maxX then xloop knn2 l (Suc i) (probe knn2 (Some (real i), ysample l i) st) else st)"
  by pat_completeness auto
termination
  by (relation "measure (\<lambda>(knn2, l, i, st). maxX - i)") auto

text \<open>\<open>for y := 0; y < maxY; y++ { ... }\<close> from the counter value \<open>j\<close> on.\<close>

function yloop :: "(f64 \<times> f64 \<Rightarrow> vec \<times> vec) \<Rightarrow> line \<Rightarrow> nat \<Rightarrow> dstate \<Rightarrow> dstate" where
  "yloop knn2 l j st =
     (if j < maxY then yloop knn2 l (Suc j) (probe knn2 (xsample l j, Some (real j)) st) else st)"
  by pat_completeness auto
termination
  by (relation "measure (\<lambda>(knn2, l, j, st). maxY - j)") auto

text \<open>\<open>func (l line) drawNear(img, tree, c, al)\<close>: the first loop, then the second.\<close>

definition drawNear :: "(f64 \<times> f64 \<Rightarrow> vec \<times> vec) \<Rightarrow> line \<Rightarrow> dstate \<Rightarrow> dstate" where
  "drawNear knn2 l st = yloop knn2 l 0 (xloop knn2 l 0 st)"

text \<open>The loops of \<open>main\<close> that build the graph:
  \<open>for i, p := range points { for _, nn := range points[i+1:] { ... } }\<close>.\<close>

fun pairsWith :: "(f64 \<times> f64 \<Rightarrow> vec \<times> vec) \<Rightarrow> vec \<Rightarrow> vec list \<Rightarrow> dstate \<Rightarrow> dstate" where
  "pairsWith knn2 p [] st = st"
| "pairsWith knn2 p (q # qs) st = pairsWith knn2 p qs (drawNear knn2 (biscector p q) st)"

fun allPairs :: "(f64 \<times> f64 \<Rightarrow> vec \<times> vec) \<Rightarrow> vec list \<Rightarrow> dstate \<Rightarrow> dstate" where
  "allPairs knn2 [] st = st"
| "allPairs knn2 (p # ps) st = allPairs knn2 ps (pairsWith knn2 p ps st)"

text \<open>
  The sampling as the specification words it: integer steps along one axis only, along
  \<open>x\<close> when \<open>|b|\<close> dominates and along \<open>y\<close> otherwise.
\<close>

definition spec_samples :: "line \<Rightarrow> (f64 \<times> f64) list" where
  "spec_samples l =
     (if \<bar>a l\<bar> \<le> \<bar>b l\<bar> then map (\<lambda>i. (Some (real i), ysample l i)) [0..<maxX]
      else map (\<lambda>j. (xsample l j, Some (real j))) [0..<maxY])"

text \<open>Two sites and the k-d tree of just these two.\<close>

definition siteA :: vec where
  "siteA = (0, 0)"

definition siteB :: vec where
  "siteB = (2, 4)"

definition knnAB :: "f64 \<times> f64 \<Rightarrow> vec \<times> vec" where
  "knnAB n =
     (case (Distance n siteA, Distance n siteB) of
        (Some d0, Some d1) \<Rightarrow> if d1 < d0 then (siteB, siteA) else (siteA, siteB)
      | _ \<Rightarrow> (siteA, siteB))"

section \<open>Symmetry of the graph\<close>

lemma neighbors_add:
  "neighbors (add l u v) k = (if k = u then insert v (neighbors l u) else neighbors l k)"
  by (simp add: add_def neighbors_def Let_def)

lemma neighbors_link:
  "neighbors (link l u v) k =
     (if k = u \<and> k = v then insert u (neighbors l u)
      else if k = u then insert v (neighbors l u)
      else if k = v then insert u (neighbors l v)
      else neighbors l k)"
  by (auto simp: link_def neighbors_add)

lemma symmetric_link: "symmetric l \<Longrightarrow> symmetric (link l u v)"
  unfolding symmetric_def by (auto simp: neighbors_link)

lemma symmetric_empty: "symmetric Map.empty"
  by (simp add: symmetric_def neighbors_def)

lemma symmetric_links: "symmetric l \<Longrightarrow> symmetric (links l ps)"
  by (induction l ps rule: links.induct) (simp_all add: symmetric_link)

section \<open>The elimination order and the colouring on 5-degenerate graphs\<close>

lemma deg_diff: "deg l seen k = card (neighbors l k - seen)"
  unfolding deg_def by (rule arg_cong[where f=card]) auto

lemma scan_Some: "scan l seen ks = Some k \<Longrightarrow> k \<in> set ks \<and> deg l seen k < 6 \<and> k \<notin> seen"
  by (induction ks) (auto split: if_splits)

lemma scan_None: "scan l seen ks = None \<Longrightarrow> k \<in> set ks \<Longrightarrow> \<not> (deg l seen k < 6 \<and> k \<notin> seen)"
  by (induction ks) (auto split: if_splits)

lemma symmetric_closed: "symmetric l \<Longrightarrow> neighbors l k \<subseteq> dom l"
  unfolding symmetric_def neighbors_def by (fastforce split: option.splits)

lemma enStack_subset:
  "orders_ok l os \<Longrightarrow> enStack os l seen = Some out \<Longrightarrow> set out \<subseteq> dom l"
proof (induction os arbitrary: seen out)
  case Nil
  then show ?case by simp
next
  case (Cons p os)
  obtain ks1 ks2 where p: "p = (ks1, ks2)" by (cases p)
  from Cons.prems(1) p have k1: "set ks1 = dom l" and k2: "set ks2 = dom l" and ok: "orders_ok l os"
    by (simp_all add: orders_ok_def)
  have step: "set out \<subseteq> dom l"
    if kd: "k \<in> dom l"
      and r: "(if card (insert k seen) = card (dom l) then Some [k]
               else map_option ((#) k) (enStack os l (insert k seen))) = Some out" for k
  proof (cases "card (insert k seen) = card (dom l)")
    case True
    with r kd show ?thesis by auto
  next
    case False
    with r obtain z where z: "enStack os l (insert k seen) = Some z" "out = k # z" by auto
    from Cons.IH[OF ok z(1)] kd z(2) show ?thesis by auto
  qed
  show ?case
  proof (cases "scan l seen ks1")
    case (Some k)
    then have kd: "k \<in> dom l" using scan_Some k1 by fastforce
    from Cons.prems(2) p Some show ?thesis by (intro step[OF kd]) simp
  next
    case None
    show ?thesis
    proof (cases ks2)
      case Nil
      with Cons.prems(2) p None show ?thesis by simp
    next
      case (Cons k ks)
      then have kd: "k \<in> dom l" using k2 by auto
      from \<open>enStack (p # os) l seen = Some out\<close> p None Cons show ?thesis
        by (intro step[OF kd]) simp
    qed
  qed
qed

lemma enStack_degenerate:
  assumes fin: "finite (dom l)" and cl: "\<And>k. neighbors l k \<subseteq> dom l" and dg: "degenerate l"
  shows "orders_ok l os \<Longrightarrow> seen \<subset> dom l \<Longrightarrow> card (dom l - seen) \<le> length os \<Longrightarrow>
     \<exists>out. enStack os l seen = Some out \<and> distinct out \<and> set out = dom l - seen \<and> good_order l out"
proof (induction os arbitrary: seen)
  case Nil
  from Nil.prems(2) fin have "card (dom l - seen) > 0"
    by (simp add: card_gt_0_iff)
  with Nil.prems(3) show ?case by simp
next
  case (Cons p os)
  obtain ks1 ks2 where p: "p = (ks1, ks2)" by (cases p)
  from Cons.prems(1) p have k1: "set ks1 = dom l" and ok: "orders_ok l os"
    by (simp_all add: orders_ok_def)
  let ?U = "dom l - seen"
  have U: "?U \<subseteq> dom l" "?U \<noteq> {}" using Cons.prems(2) by auto
  with dg obtain k0 where k0: "k0 \<in> ?U" "card (neighbors l k0 \<inter> ?U) < 6"
    unfolding degenerate_def by blast
  have "neighbors l k0 \<inter> ?U = neighbors l k0 - seen" using cl[of k0] by auto
  with k0 have "deg l seen k0 < 6 \<and> k0 \<notin> seen" by (simp add: deg_diff)
  moreover have "k0 \<in> set ks1" using k0 k1 by simp
  ultimately have "scan l seen ks1 \<noteq> None" using scan_None by fastforce
  then obtain k where sc: "scan l seen ks1 = Some k" by auto
  from scan_Some[OF sc] k1 have k: "k \<in> dom l" "k \<notin> seen" "deg l seen k < 6" by auto
  have fs: "finite seen" using Cons.prems(2) fin by (meson finite_subset psubset_imp_subset)
  have sub: "insert k seen \<subseteq> dom l" using k Cons.prems(2) by auto
  show ?case
  proof (cases "card (insert k seen) = card (dom l)")
    case True
    with sub fin have eq: "insert k seen = dom l" by (simp add: card_subset_eq)
    then have "dom l - seen = {k}" using k by auto
    with sc True p show ?thesis by simp
  next
    case False
    with sub have ps: "insert k seen \<subset> dom l" by auto
    have "dom l - seen = insert k (dom l - insert k seen)" using k by auto
    moreover have "k \<notin> dom l - insert k seen" by simp
    moreover have "finite (dom l - insert k seen)" using fin by simp
    ultimately have "card (dom l - seen) = Suc (card (dom l - insert k seen))"
      by (metis card_insert_disjoint)
    with Cons.prems(3) have len: "card (dom l - insert k seen) \<le> length os" by simp
    from Cons.IH[OF ok ps len] obtain out where out:
      "enStack os l (insert k seen) = Some out" "distinct out"
      "set out = dom l - insert k seen" "good_order l out" by blast
    have "neighbors l k \<inter> set out \<subseteq> neighbors l k - seen" using out(3) by auto
    moreover have "finite (neighbors l k - seen)" using cl[of k] fin by (meson finite_Diff finite_subset)
    ultimately have "card (neighbors l k \<inter> set out) \<le> card (neighbors l k - seen)"
      by (rule card_mono[rotated])
    with k(3) have g: "card (neighbors l k \<inter> set out) < 6" by (simp add: deg_diff)
    have "set (k # out) = dom l - seen" using out(3) k by auto
    with sc False p out g show ?thesis by simp
  qed
qed

lemma assign_eq:
  "assign seen p cs st =
     (if unseen seen cs = [] then st
      else st\<lparr>col := (col st)(p := last (unseen seen cs)),
              writes := writes st @ map (Pair p) (unseen seen cs)\<rparr>)"
proof (induction cs arbitrary: st)
  case Nil
  then show ?case by (simp add: unseen_def)
next
  case (Cons c cs)
  show ?case by (simp add: Cons.IH unseen_def)
qed

lemma card_colors: "card (set colors) = 6"
  by (simp add: colors_def)

lemma init_not_palette: "initColor \<notin> set colors"
  by (simp add: colors_def initColor_def)

lemma good_order_drop: "good_order l ks \<Longrightarrow> good_order l (drop j ks)"
proof (induction ks arbitrary: j)
  case Nil
  then show ?case by simp
next
  case (Cons k ks)
  then show ?case by (cases j) simp_all
qed

lemma colorStep_free:
  assumes sym: "symmetric al" and nsl: "\<forall>k. k \<notin> neighbors al k"
    and fin: "finite (dom al)"
    and dist: "distinct stack" and dom: "set stack = dom al" and go: "good_order al stack"
    and nn: "\<forall>k\<in>dom al. nn k = k"
    and i: "i < length stack" and inv: "coloring_inv al stack (Suc i) st"
    and P: "set cs = set colors"
  shows "unseen ((\<lambda>n. col st (nn n)) ` neighbors al (nn (stack ! i))) cs \<noteq> []"
    and "(\<lambda>n. col st (nn n)) ` neighbors al (nn (stack ! i)) = col st ` neighbors al (stack ! i)"
proof -
  let ?k = "stack ! i"
  let ?N = "neighbors al ?k"
  let ?D = "set (drop (Suc i) stack)"
  have kd: "?k \<in> dom al" using i dom by (metis nth_mem)
  have Nd: "?N \<subseteq> dom al" using symmetric_closed[OF sym] .
  have dr: "drop i stack = ?k # drop (Suc i) stack" using i by (simp add: Cons_nth_drop_Suc)
  show seen: "(\<lambda>n. col st (nn n)) ` neighbors al (nn ?k) = col st ` ?N"
    using nn kd Nd by (auto simp: image_iff subset_iff)
  have "good_order al (drop i stack)" using go by (rule good_order_drop)
  then have c5: "card (?N \<inter> ?D) < 6" by (simp add: dr)
  have split: "set stack = set (take (Suc i) stack) \<union> ?D"
    by (metis append_take_drop_id set_append)
  have sub: "col st ` ?N \<inter> set colors \<subseteq> col st ` (?N \<inter> ?D)"
  proof
    fix c assume "c \<in> col st ` ?N \<inter> set colors"
    then obtain n where n: "n \<in> ?N" "c = col st n" "col st n \<in> set colors" by auto
    from n(1) Nd dom have "n \<in> set stack" by auto
    moreover have "n \<notin> set (take (Suc i) stack)"
      using inv n(3) unfolding coloring_inv_def by blast
    ultimately have "n \<in> ?D" using split by auto
    with n show "c \<in> col st ` (?N \<inter> ?D)" by auto
  qed
  have "finite (?N \<inter> ?D)" by simp
  then have "card (col st ` (?N \<inter> ?D)) \<le> card (?N \<inter> ?D)" by (rule card_image_le)
  moreover have "card (col st ` ?N \<inter> set colors) \<le> card (col st ` (?N \<inter> ?D))"
    by (rule card_mono[OF _ sub]) simp
  ultimately have "card (col st ` ?N \<inter> set colors) < 6" using c5 by linarith
  then have "col st ` ?N \<inter> set colors \<noteq> set colors" using card_colors by auto
  then obtain c where "c \<in> set colors" "c \<notin> col st ` ?N" by auto
  then have "c \<in> set (unseen (col st ` ?N) cs)" using P by (simp add: unseen_def)
  then show "unseen ((\<lambda>n. col st (nn n)) ` neighbors al (nn ?k)) cs \<noteq> []"
    unfolding seen by auto
qed

lemma colorStep_inv:
  assumes sym: "symmetric al" and nsl: "\<forall>k. k \<notin> neighbors al k"
    and fin: "finite (dom al)"
    and dist: "distinct stack" and dom: "set stack = dom al" and go: "good_order al stack"
    and nn: "\<forall>k\<in>dom al. nn k = k"
    and sh: "\<forall>i cs. mset (shuffle i cs) = mset cs"
    and i: "i < length stack" and inv: "coloring_inv al stack (Suc i) st"
  shows "coloring_inv al stack i (colorStep nn shuffle al stack i st)"
proof -
  let ?k = "stack ! i"
  let ?N = "neighbors al ?k"
  let ?D = "set (drop (Suc i) stack)"
  let ?cs = "shuffle i (pal st)"
  let ?seen = "(\<lambda>n. col st (nn n)) ` neighbors al (nn ?k)"
  let ?c = "last (unseen ?seen ?cs)"
  have kd: "?k \<in> dom al" using i dom by (metis nth_mem)
  have P: "set ?cs = set colors"
    using inv sh unfolding coloring_inv_def by (metis mset_eq_setD)
  note fr = colorStep_free[OF sym nsl fin dist dom go nn i inv P]
  define c where "c = ?c"
  have "c \<in> set (unseen ?seen ?cs)" unfolding c_def using fr(1) by (rule last_in_set)
  then have c0: "c \<in> set colors" "c \<notin> col st ` ?N"
    using P fr(2) by (auto simp: unseen_def)
  have c: "c \<in> set colors" "\<And>n. n \<in> ?N \<Longrightarrow> col st n \<noteq> c"
    using c0 by blast+
  have st': "colorStep nn shuffle al stack i st =
      st\<lparr>pal := ?cs, col := (col st)(?k := c), writes := writes st @ map (Pair ?k) (unseen ?seen ?cs)\<rparr>"
    using fr(1) nn kd by (simp add: colorStep_def Let_def assign_eq c_def)
  have dr: "drop i stack = ?k # drop (Suc i) stack" using i by (simp add: Cons_nth_drop_Suc)
  have tk: "take (Suc i) stack = take i stack @ [?k]" using i by (simp add: take_Suc_conv_app_nth)
  have kD: "?k \<notin> ?D" using dist dr by (metis append_take_drop_id distinct.simps(2) distinct_append)
  have kT: "?k \<notin> set (take i stack)"
    using dist i by (metis append_take_drop_id distinct_append dr disjoint_iff list.set_intros(1))
  have i1: "\<forall>k\<in>?D. col st k \<in> set colors"
    and i2: "\<forall>k\<in>set (take (Suc i) stack). col st k \<notin> set colors"
    and i3: "\<forall>u\<in>?D. \<forall>v\<in>?D. v \<in> neighbors al u \<longrightarrow> col st u \<noteq> col st v"
    using inv unfolding coloring_inv_def by blast+
  have sy: "\<And>u. ?k \<in> neighbors al u \<Longrightarrow> u \<in> ?N" using sym unfolding symmetric_def by blast
  show ?thesis
    unfolding coloring_inv_def st' dr
    using P c(1) i1 i2 i3 kD kT nsl by (auto simp: tk dest: sy c(2))
qed

lemma colorLoop_inv:
  assumes sym: "symmetric al" and nsl: "\<forall>k. k \<notin> neighbors al k"
    and fin: "finite (dom al)"
    and dist: "distinct stack" and dom: "set stack = dom al" and go: "good_order al stack"
    and nn: "\<forall>k\<in>dom al. nn k = k"
    and sh: "\<forall>i cs. mset (shuffle i cs) = mset cs"
  shows "j \<le> length stack \<Longrightarrow> coloring_inv al stack j st \<Longrightarrow>
     coloring_inv al stack 0 (colorLoop nn shuffle al stack j st)"
proof (induction j arbitrary: st)
  case 0
  then show ?case by simp
next
  case (Suc j)
  from Suc.prems(1) have j: "j < length stack" by simp
  have "coloring_inv al stack j (colorStep nn shuffle al stack j st)"
    by (rule colorStep_inv[OF sym nsl fin dist dom go nn sh j Suc.prems(2)])
  with Suc.IH j show ?case by simp
qed

lemma enStack_empty: "dom l = {} \<Longrightarrow> orders_ok l (p # os) \<Longrightarrow> enStack (p # os) l seen = Some []"
  by (cases p) (simp add: orders_ok_def)

lemma enStack_total:
  assumes fin: "finite (dom l)" and sym: "symmetric l" and dg: "degenerate l"
    and ok: "orders_ok l os" and ne: "os \<noteq> []" and len: "card (dom l) \<le> length os"
  shows "\<exists>out. enStack os l {} = Some out \<and> distinct out \<and> set out = dom l \<and> good_order l out"
proof (cases "dom l = {}")
  case True
  from ne obtain p os' where "os = p # os'" by (cases os) auto
  with True ok show ?thesis using enStack_empty[of l p os' "{}"] by simp
next
  case False
  then have ps: "{} \<subset> dom l" by blast
  have len': "card (dom l - {}) \<le> length os" using len by simp
  have cl: "\<And>k. neighbors l k \<subseteq> dom l" using sym by (rule symmetric_closed)
  from enStack_degenerate[OF fin cl dg ok ps len'] show ?thesis by simp
qed

lemma colorPoints_inv:
  assumes sym: "symmetric al" and nsl: "\<forall>k. k \<notin> neighbors al k"
    and fin: "finite (dom al)" and dg: "degenerate al"
    and ok: "orders_ok al os" and ne: "os \<noteq> []" and len: "card (dom al) \<le> length os"
    and nn: "\<forall>k\<in>dom al. nn k = k"
    and sh: "\<forall>i cs. mset (shuffle i cs) = mset cs"
    and pal0: "set (pal st) = set colors"
    and col0: "\<forall>k\<in>dom al. col st k \<notin> set colors"
  shows "\<exists>stack st'. enStack os al {} = Some stack \<and> distinct stack \<and> set stack = dom al \<and>
           colorPoints nn shuffle os al st = Some st' \<and> coloring_inv al stack 0 st'"
proof -
  from enStack_total[OF fin sym dg ok ne len] obtain stack where
    s: "enStack os al {} = Some stack" "distinct stack" "set stack = dom al" "good_order al stack"
    by blast
  have "\<forall>k\<in>set stack. col st k \<notin> set colors" using col0 s(3) by simp
  then have i0: "coloring_inv al stack (length stack) st"
    using pal0 by (simp add: coloring_inv_def)
  have "coloring_inv al stack 0 (colorLoop nn shuffle al stack (length stack) st)"
    by (rule colorLoop_inv[OF sym nsl fin s(2) s(3) s(4) nn sh order_refl i0])
  with s show ?thesis by (simp add: colorPoints_def)
qed

lemma neighbors_dom: "v \<in> neighbors l u \<Longrightarrow> u \<in> dom l"
  by (auto simp: neighbors_def split: option.splits)

lemma degenerate_small:
  assumes "\<forall>k. finite (neighbors l k) \<and> card (neighbors l k) < 6"
  shows "degenerate l"
  unfolding degenerate_def
proof (intro allI impI)
  fix U assume "U \<subseteq> dom l \<and> U \<noteq> {}"
  then obtain k where k: "k \<in> U" by auto
  have "finite (neighbors l k)" using assms by simp
  then have "card (neighbors l k \<inter> U) \<le> card (neighbors l k)"
    by (intro card_mono) simp_all
  moreover have "card (neighbors l k) < 6" using assms by simp
  ultimately have "card (neighbors l k \<inter> U) < 6" by linarith
  with k show "\<exists>k\<in>U. card (neighbors l k \<inter> U) < 6" by blast
qed

section \<open>The concrete graphs\<close>

lemma g2_nb: "neighbors g2 k = (if k = 0 then {1} else if k = 1 then {0} else {})"
  by (simp add: g2_def neighbors_link) (simp add: neighbors_def)

lemma g2_dom: "dom g2 = {0, 1}"
  by (auto simp: g2_def link_def add_def Let_def neighbors_def split: if_splits)

lemma complete_nb: "neighbors (complete ks) k = (if k \<in> set ks then set ks - {k} else {})"
  by (simp add: complete_def neighbors_def)

lemma complete_dom: "dom (complete ks) = set ks"
  by (auto simp: complete_def split: if_splits)

lemma dom_link: "dom (link l u v) = insert u (insert v (dom l))"
  by (auto simp: link_def add_def Let_def split: if_splits)

lemma k7_dom: "dom k7 = {0, 1, 2, 3, 4, 5, 6}"
  by (simp add: k7_def complete_dom)

lemma k8_dom: "dom k8 = {0, 1, 2, 3, 4, 5, 6, 7}"
  by (simp add: k8_def complete_dom)

lemma g8_dom: "dom g8 = {0, 1, 2, 3, 4, 5, 6, 7}"
  by (auto simp: g8_def dom_link k7_dom)

lemma k7_nb:
  "neighbors k7 0 = {1, 2, 3, 4, 5, 6}" "neighbors k7 1 = {0, 2, 3, 4, 5, 6}"
  "neighbors k7 2 = {0, 1, 3, 4, 5, 6}" "neighbors k7 3 = {0, 1, 2, 4, 5, 6}"
  "neighbors k7 4 = {0, 1, 2, 3, 5, 6}" "neighbors k7 5 = {0, 1, 2, 3, 4, 6}"
  "neighbors k7 6 = {0, 1, 2, 3, 4, 5}"
  by (simp_all add: k7_def complete_nb insert_Diff_if)

lemma k8_nb:
  "neighbors k8 0 = {1, 2, 3, 4, 5, 6, 7}" "neighbors k8 1 = {0, 2, 3, 4, 5, 6, 7}"
  "neighbors k8 2 = {0, 1, 3, 4, 5, 6, 7}" "neighbors k8 3 = {0, 1, 2, 4, 5, 6, 7}"
  "neighbors k8 4 = {0, 1, 2, 3, 5, 6, 7}" "neighbors k8 5 = {0, 1, 2, 3, 4, 6, 7}"
  "neighbors k8 6 = {0, 1, 2, 3, 4, 5, 7}" "neighbors k8 7 = {0, 1, 2, 3, 4, 5, 6}"
  by (simp_all add: k8_def complete_nb insert_Diff_if)

lemma g8_nb:
  "neighbors g8 0 = {7, 1, 2, 3, 4, 5, 6}" "neighbors g8 1 = {0, 2, 3, 4, 5, 6}"
  "neighbors g8 2 = {0, 1, 3, 4, 5, 6}" "neighbors g8 3 = {0, 1, 2, 4, 5, 6}"
  "neighbors g8 4 = {0, 1, 2, 3, 5, 6}" "neighbors g8 5 = {0, 1, 2, 3, 4, 6}"
  "neighbors g8 6 = {0, 1, 2, 3, 4, 5}" "neighbors g8 7 = {0}"
  by (simp_all add: g8_def neighbors_link k7_nb) (simp add: k7_def complete_nb)

lemma g8_run: "enStack os8 g8 {} = Some [7, 7, 0, 1, 2, 3, 4, 5, 6]"
  by (simp add: os8_def up8_def deg_diff g8_nb g8_dom)

lemma k7_stack: "enStack os7 k7 {} = Some [0, 1, 2, 3, 4, 5, 6]"
  by (simp add: os7_def up7_def deg_diff k7_nb k7_dom)

lemma k8_stack: "enStack osk8 k8 {} = Some [0, 1, 2, 3, 4, 5, 6, 7]"
  by (simp add: osk8_def up8_def deg_diff k8_nb k8_dom)

lemma g2_stack: "enStack os2 g2 {} = Some [0, 1]"
  by (simp add: os2_def deg_diff g2_nb g2_dom)

lemma g2_stack_r: "enStack os2r g2 {} = Some [1, 0]"
  by (simp add: os2r_def deg_diff g2_nb g2_dom)

lemma g2_colors:
  "colorPoints self keep os2 g2 initState =
     Some \<lparr>col = (\<lambda>_. initColor)(1 := RGBA 89 49 95 255, 0 := RGBA 135 206 235 255),
           pal = colors,
           writes = map (Pair 1) colors @ map (Pair 0) (butlast colors)\<rparr>"
  by (simp add: colorPoints_def g2_stack colorStep_def Let_def initState_def g2_nb colors_def
      initColor_def self_def keep_def)

lemma k7_colors:
  "map_option (\<lambda>s. (col s 0, col s 1, col s 2, col s 3, col s 4, col s 5, col s 6))
     (colorPoints self keep os7 k7 initState) =
   Some (initColor, RGBA 155 17 30 255, RGBA 190 83 28 255, RGBA 241 196 0 255,
         RGBA 19 104 67 255, RGBA 135 206 235 255, RGBA 89 49 95 255)"
  by (simp add: colorPoints_def k7_stack colorStep_def Let_def initState_def k7_nb colors_def
      initColor_def self_def keep_def)

lemma k8_colors:
  "map_option (\<lambda>s. (col s 0, col s 1)) (colorPoints self keep osk8 k8 initState) =
   Some (initColor, initColor)"
  by (simp add: colorPoints_def k8_stack colorStep_def Let_def initState_def k8_nb colors_def
      initColor_def self_def keep_def)

lemma symmetric_complete: "symmetric (complete ks)"
  unfolding symmetric_def by (auto simp: complete_nb)

lemma symmetric_g2: "symmetric g2"
  unfolding g2_def by (intro symmetric_link symmetric_empty)

lemma degenerate_g2: "degenerate g2"
  by (rule degenerate_small) (simp add: g2_nb)

lemma orders_ok_g2: "orders_ok g2 os2" "orders_ok g2 os2r"
  by (auto simp: orders_ok_def g2_dom os2_def os2r_def)

lemma keep_perm: "\<forall>i cs. mset (keep i cs) = mset cs"
  by (simp add: keep_def)

lemma initState_ok:
  "set (pal (initState :: 'k cstate)) = set colors"
  "\<forall>k\<in>S. col (initState :: 'k cstate) k \<notin> set colors"
  by (simp_all add: initState_def init_not_palette)

section \<open>Claims about the colouring\<close>

text \<open>
  C1 (amended). Let the adjacency graph be symmetric, without self-loops, finite and
  5-degenerate, let every \<open>range\<close> over the map deliver exactly its keys, let the run
  be given at least as many calls as the graph has vertices, let the nearest site of
  every key be the site with these coordinates, let \<open>rand.Shuffle\<close> permute the
  palette, and let no site of the graph carry a palette colour at the start. Then
  \<open>colorPoints\<close> returns, and after it the colours at the two ends of every edge
  differ.
\<close>

theorem colorPoints_proper:
  assumes sym: "symmetric al" and nsl: "\<forall>k. k \<notin> neighbors al k"
    and fin: "finite (dom al)" and dg: "degenerate al"
    and ok: "orders_ok al os" and ne: "os \<noteq> []" and len: "card (dom al) \<le> length os"
    and nn: "\<forall>k\<in>dom al. nn k = k"
    and sh: "\<forall>i cs. mset (shuffle i cs) = mset cs"
    and pal0: "set (pal st) = set colors"
    and col0: "\<forall>k\<in>dom al. col st k \<notin> set colors"
  shows "\<exists>st'. colorPoints nn shuffle os al st = Some st' \<and>
           (\<forall>u v. v \<in> neighbors al u \<longrightarrow> col st' u \<noteq> col st' v)"
proof -
  from colorPoints_inv[OF sym nsl fin dg ok ne len nn sh pal0 col0] obtain stack st' where
    s: "set stack = dom al" "colorPoints nn shuffle os al st = Some st'" "coloring_inv al stack 0 st'"
    by blast
  have "col st' u \<noteq> col st' v" if e: "v \<in> neighbors al u" for u v
  proof -
    have "u \<in> dom al" using e by (rule neighbors_dom)
    moreover have "v \<in> dom al" using e symmetric_closed[OF sym] by blast
    ultimately have "u \<in> set (drop 0 stack)" "v \<in> set (drop 0 stack)" using s(1) by simp_all
    with s(3) e show ?thesis unfolding coloring_inv_def by blast
  qed
  with s(2) show ?thesis by blast
qed

theorem colorPoints_proper_witness:
  "symmetric g2 \<and> degenerate g2 \<and> orders_ok g2 os2 \<and>
   (\<exists>st'. colorPoints self keep os2 g2 initState = Some st' \<and> col st' 0 \<noteq> col st' 1)"
proof -
  have "\<forall>k. k \<notin> neighbors g2 k" by (simp add: g2_nb)
  moreover have "finite (dom g2)" by (simp add: g2_dom)
  moreover have "os2 \<noteq> []" by (simp add: os2_def)
  moreover have "card (dom g2) \<le> length os2" by (simp add: g2_dom os2_def)
  moreover have "\<forall>k\<in>dom g2. self k = k" by (simp add: self_def)
  ultimately have "\<exists>st'. colorPoints self keep os2 g2 initState = Some st' \<and>
           (\<forall>u v. v \<in> neighbors g2 u \<longrightarrow> col st' u \<noteq> col st' v)"
    using colorPoints_proper[OF symmetric_g2 _ _ degenerate_g2 orders_ok_g2(1) _ _ _ keep_perm
        initState_ok(1) initState_ok(2)]
    by blast
  moreover have "1 \<in> neighbors g2 0" by (simp add: g2_nb)
  ultimately have "\<exists>st'. colorPoints self keep os2 g2 initState = Some st' \<and> col st' 0 \<noteq> col st' 1"
    by blast
  with symmetric_g2 degenerate_g2 orders_ok_g2(1) show ?thesis by simp
qed

text \<open>
  C1 as stated fails on a graph that is too dense for the palette: on eight mutually
  adjacent sites the run below leaves the adjacent sites 0 and 1 both with the colour
  they started with.
\<close>

theorem colorPoints_proper_counterexample:
  "symmetric k8 \<and> orders_ok k8 osk8 \<and> 1 \<in> neighbors k8 0 \<and>
   map_option (\<lambda>s. (col s 0, col s 1)) (colorPoints self keep osk8 k8 initState) =
     Some (initColor, initColor)"
proof -
  have "symmetric k8" unfolding k8_def by (rule symmetric_complete)
  moreover have "orders_ok k8 osk8" by (auto simp: orders_ok_def osk8_def up8_def k8_dom)
  moreover have "1 \<in> neighbors k8 0" by (simp add: k8_nb)
  ultimately show ?thesis using k8_colors by simp
qed

section \<open>Claims about the elimination order\<close>

text \<open>
  C2 fails on the code. On the graph \<open>g8\<close> (seven mutually adjacent sites and an eighth
  one adjacent to site 0) the scan removes site 7 first and then finds no vertex of low
  degree; the second loop takes the first key the runtime delivers without testing
  \<open>seen\<close>, here 7 again, so that the returned order lists site 7 twice and has 9
  entries for 8 vertices.
\<close>

theorem enStack_fallback_duplicate:
  "symmetric g8 \<and> orders_ok g8 os8 \<and> enStack os8 g8 {} = Some [7, 7, 0, 1, 2, 3, 4, 5, 6]"
proof -
  have "symmetric g8" unfolding g8_def k7_def by (intro symmetric_link symmetric_complete)
  moreover have "orders_ok g8 os8" by (auto simp: orders_ok_def os8_def up8_def g8_dom)
  ultimately show ?thesis using g8_run by simp
qed

text \<open>When the runtime delivers key 7 first to every second loop, the recursion on
  \<open>g8\<close> never ends: no number of calls suffices.\<close>

lemma enStack_fallback_stuck: "enStack (replicate n (up8, 7 # up7)) g8 {7} = None"
  by (induction n) (simp_all add: up8_def up7_def deg_diff g8_nb g8_dom)

lemma enStack_fallback_no_return: "enStack (replicate n (up8, 7 # up7)) g8 {} = None"
proof (cases n)
  case 0
  then show ?thesis by simp
next
  case (Suc m)
  have "enStack ((up8, 7 # up7) # replicate m (up8, 7 # up7)) g8 {} =
      map_option ((#) 7) (enStack (replicate m (up8, 7 # up7)) g8 {7})"
    by (simp add: up8_def up7_def deg_diff g8_nb g8_dom)
  with Suc show ?thesis by (simp add: enStack_fallback_stuck)
qed

section \<open>Claims about the construction of the graph\<close>

lemma probe_samples: "samples (probe knn2 n st) = samples st @ [n]"
  by (simp add: probe_def Let_def)

lemma probe_symmetric: "symmetric (adj st) \<Longrightarrow> symmetric (adj (probe knn2 n st))"
  by (simp add: probe_def Let_def symmetric_link)

lemma probe_far: "\<not> near n (fst (knn2 n)) (snd (knn2 n)) \<Longrightarrow> adj (probe knn2 n st) = adj st"
  by (simp add: probe_def Let_def)

declare xloop.simps [simp del] yloop.simps [simp del]

lemma xloop_step:
  "i < maxX \<Longrightarrow> xloop knn2 l i st = xloop knn2 l (Suc i) (probe knn2 (Some (real i), ysample l i) st)"
  by (subst xloop.simps) simp

lemma xloop_done: "\<not> i < maxX \<Longrightarrow> xloop knn2 l i st = st"
  by (subst xloop.simps) simp

lemma yloop_step:
  "j < maxY \<Longrightarrow> yloop knn2 l j st = yloop knn2 l (Suc j) (probe knn2 (xsample l j, Some (real j)) st)"
  by (subst yloop.simps) simp

lemma yloop_done: "\<not> j < maxY \<Longrightarrow> yloop knn2 l j st = st"
  by (subst yloop.simps) simp

lemma xloop_samples:
  "samples (xloop knn2 l i st) =
     samples st @ map (\<lambda>i. (Some (real i), ysample l i)) [i..<maxX]"
proof (induction knn2 l i st rule: xloop.induct)
  case (1 knn2 l i st)
  show ?case
  proof (cases "i < maxX")
    case True
    then have "[i..<maxX] = i # [Suc i..<maxX]" by (rule upt_conv_Cons)
    with True "1.IH" show ?thesis by (simp add: probe_samples xloop_step)
  next
    case False
    then show ?thesis by (simp add: xloop_done)
  qed
qed

lemma yloop_samples:
  "samples (yloop knn2 l j st) =
     samples st @ map (\<lambda>j. (xsample l j, Some (real j))) [j..<maxY]"
proof (induction knn2 l j st rule: yloop.induct)
  case (1 knn2 l j st)
  show ?case
  proof (cases "j < maxY")
    case True
    then have "[j..<maxY] = j # [Suc j..<maxY]" by (rule upt_conv_Cons)
    with True "1.IH" show ?thesis by (simp add: probe_samples yloop_step)
  next
    case False
    then show ?thesis by (simp add: yloop_done)
  qed
qed

lemma xloop_symmetric: "symmetric (adj st) \<Longrightarrow> symmetric (adj (xloop knn2 l i st))"
proof (induction knn2 l i st rule: xloop.induct)
  case (1 knn2 l i st)
  show ?case
  proof (cases "i < maxX")
    case True
    with "1.IH" "1.prems" show ?thesis by (simp add: probe_symmetric xloop_step)
  next
    case False
    with "1.prems" show ?thesis by (simp add: xloop_done)
  qed
qed

lemma yloop_symmetric: "symmetric (adj st) \<Longrightarrow> symmetric (adj (yloop knn2 l j st))"
proof (induction knn2 l j st rule: yloop.induct)
  case (1 knn2 l j st)
  show ?case
  proof (cases "j < maxY")
    case True
    with "1.IH" "1.prems" show ?thesis by (simp add: probe_symmetric yloop_step)
  next
    case False
    with "1.prems" show ?thesis by (simp add: yloop_done)
  qed
qed

lemma drawNear_symmetric: "symmetric (adj st) \<Longrightarrow> symmetric (adj (drawNear knn2 l st))"
  by (simp add: drawNear_def xloop_symmetric yloop_symmetric)

lemma pairsWith_symmetric: "symmetric (adj st) \<Longrightarrow> symmetric (adj (pairsWith knn2 p qs st))"
  by (induction qs arbitrary: st) (simp_all add: drawNear_symmetric)

lemma allPairs_symmetric: "symmetric (adj st) \<Longrightarrow> symmetric (adj (allPairs knn2 ps st))"
  by (induction ps arbitrary: st) (simp_all add: pairsWith_symmetric)

text \<open>
  C7. The graph is symmetric after every \<open>link\<close> call of a construction that starts
  from the empty map, whatever the calls are, and so is the graph that the loops of
  \<open>main\<close> build: a key is among the neighbours of another one exactly when that one is
  among its own.
\<close>

theorem link_symmetric:
  "symmetric (links Map.empty ps) \<and> symmetric (adj (allPairs knn2 points emptyD))"
  by (simp add: symmetric_links symmetric_empty allPairs_symmetric emptyD_def)

text \<open>
  C6 (amended). For every line \<open>drawNear\<close> takes its samples along both axes, whatever
  the coefficients are: one sample for each integer \<open>x\<close> below \<open>maxX\<close>, then one for
  each integer \<open>y\<close> below \<open>maxY\<close>.
\<close>

theorem drawNear_samples:
  "samples (drawNear knn2 l st) =
     samples st @ map (\<lambda>i. (Some (real i), ysample l i)) [0..<maxX]
       @ map (\<lambda>j. (xsample l j, Some (real j))) [0..<maxY]"
  by (simp add: drawNear_def xloop_samples yloop_samples)

lemma drawNear_count: "length (samples (drawNear knn2 l emptyD)) = maxX + maxY"
  by (simp add: drawNear_def xloop_samples yloop_samples emptyD_def)

lemma bisectorAB: "biscector siteA siteB = \<lparr>a = 2, b = 4, c = 10\<rparr>"
  by (simp add: biscector_def perp_def line_def siteA_def siteB_def Let_def)

text \<open>
  C6 as stated fails: for the bisector of the sites \<open>(0, 0)\<close> and \<open>(2, 4)\<close>, on which
  \<open>|b|\<close> dominates, the samples are not those of the \<open>x\<close> axis alone.
\<close>

theorem drawNear_samples_counterexample:
  "\<bar>a (biscector siteA siteB)\<bar> \<le> \<bar>b (biscector siteA siteB)\<bar> \<and>
   samples (drawNear knnAB (biscector siteA siteB) emptyD) \<noteq> spec_samples (biscector siteA siteB)"
proof -
  have "length (samples (drawNear knnAB (biscector siteA siteB) emptyD)) = maxX + maxY"
    by (rule drawNear_count)
  moreover have "length (spec_samples (biscector siteA siteB)) = maxX"
    by (simp add: spec_samples_def bisectorAB)
  moreover have "maxX + maxY \<noteq> maxX" by (simp add: maxY_def)
  ultimately have "samples (drawNear knnAB (biscector siteA siteB) emptyD) \<noteq> spec_samples (biscector siteA siteB)"
    by metis
  then show ?thesis by (simp add: bisectorAB)
qed

lemma bisector_same: "biscector p p = \<lparr>a = 0, b = 0, c = 0\<rparr>"
  by (simp add: biscector_def perp_def line_def Let_def)

lemma ysample_zero: "b l = 0 \<Longrightarrow> ysample l i = None"
  by (simp add: ysample_def fdiv_def fneg_def fmul_def fadd_def)

lemma xsample_zero: "a l = 0 \<Longrightarrow> xsample l j = None"
  by (simp add: xsample_def fdiv_def fneg_def fmul_def fadd_def)

lemma near_None: "\<not> near (u, None) n0 n1" "\<not> near (None, v) n0 n1"
  by (simp_all add: near_def Distance_def Let_def fsub_def fadd_def fmul_def split: option.splits)

lemma xloop_zero: "b l = 0 \<Longrightarrow> adj (xloop knn2 l i st) = adj st"
proof (induction knn2 l i st rule: xloop.induct)
  case (1 knn2 l i st)
  show ?case
  proof (cases "i < maxX")
    case True
    with "1.IH" "1.prems" show ?thesis by (simp add: ysample_zero probe_far near_None xloop_step)
  next
    case False
    then show ?thesis by (simp add: xloop_done)
  qed
qed

lemma yloop_zero: "a l = 0 \<Longrightarrow> adj (yloop knn2 l j st) = adj st"
proof (induction knn2 l j st rule: yloop.induct)
  case (1 knn2 l j st)
  show ?case
  proof (cases "j < maxY")
    case True
    with "1.IH" "1.prems" show ?thesis by (simp add: xsample_zero probe_far near_None yloop_step)
  next
    case False
    then show ?thesis by (simp add: yloop_done)
  qed
qed

text \<open>
  C9 (amended). When the two sites coincide the bisector has the coefficients
  \<open>(0, 0, 0)\<close>. \<open>drawNear\<close> has no guard for this line: it takes all its samples, each
  division has the divisor zero and yields a non-finite coordinate, no sample passes the
  distance test and the graph stays as it was.
\<close>

theorem drawNear_degenerate:
  "biscector p p = \<lparr>a = 0, b = 0, c = 0\<rparr> \<and>
   samples (drawNear knn2 (biscector p p) st) =
     samples st @ map (\<lambda>i. (Some (real i), None)) [0..<maxX]
       @ map (\<lambda>j. (None, Some (real j))) [0..<maxY] \<and>
   adj (drawNear knn2 (biscector p p) st) = adj st"
  by (simp add: bisector_same drawNear_def xloop_samples yloop_samples xloop_zero yloop_zero
      ysample_zero xsample_zero)

text \<open>
  C9 as stated fails: for two coinciding sites the sampling is not skipped, and the
  first division already has the divisor zero.
\<close>

theorem drawNear_degenerate_counterexample:
  "biscector siteA siteA = \<lparr>a = 0, b = 0, c = 0\<rparr> \<and>
   length (samples (drawNear knnAB (biscector siteA siteA) emptyD)) = 3120 \<and>
   fdiv (a (biscector siteA siteA)) (b (biscector siteA siteA)) = None"
  by (simp add: bisector_same drawNear_count fdiv_def maxX_def maxY_def)

section \<open>Claims about the assignment of colours\<close>

lemma colorStep_eq:
  "colorStep nn shuffle al stack i st =
     (let p = nn (stack ! i);
          cs = shuffle i (pal st);
          free = unseen ((\<lambda>n. col st (nn n)) ` neighbors al p) cs
      in if free = [] then st\<lparr>pal := cs\<rparr>
         else st\<lparr>pal := cs, col := (col st)(p := last free),
                 writes := writes st @ map (Pair p) free\<rparr>)"
  by (simp add: colorStep_def Let_def assign_eq)






text \<open>
  C5 (amended). When \<open>colorPoints\<close> colours a site it collects the colours of all
  its neighbours and assigns the last colour of the shuffled palette that is not among
  them; the loop does not stop at the first one. When every palette colour is among
  them, the site keeps the colour it has. A neighbour that is not coloured yet carries
  its initial colour, which is no palette colour and so excludes nothing.
\<close>

theorem colorStep_last:
  "col (colorStep nn shuffle al stack i st) =
     (let p = nn (stack ! i);
          free = unseen ((\<lambda>n. col st (nn n)) ` neighbors al p) (shuffle i (pal st))
      in if free = [] then col st else (col st)(p := last free)) \<and>
   (\<forall>S cs. set cs = set colors \<longrightarrow> unseen (insert initColor S) cs = unseen S cs)"
proof -
  have "unseen (insert initColor S) cs = unseen S cs" if "set cs = set colors" for S cs
    unfolding unseen_def using that init_not_palette by (intro filter_cong) auto
  then show ?thesis by (simp add: colorStep_eq Let_def)
qed

theorem colorStep_last_witness:
  "col (colorStep self keep g2 [0, 1] (Suc 0) initState) 1 = last colors \<and>
   unseen (insert initColor {}) colors = unseen {} colors"
proof -
  have "unseen ((\<lambda>n. col initState (self n)) ` neighbors g2 (self ([0, 1] ! Suc 0))) (keep (Suc 0) (pal (initState :: int cstate)))
      = colors"
    by (simp add: unseen_def initState_def g2_nb colors_def initColor_def self_def keep_def)
  moreover have "colors \<noteq> []" by (simp add: colors_def)
  moreover have "self ([0, 1] ! Suc 0) = 1" by (simp add: self_def)
  ultimately have "col (colorStep self keep g2 [0, 1] (Suc 0) initState) 1 = last colors"
    using colorStep_last[of self keep g2 "[0, 1]" "Suc 0" initState] by (simp add: Let_def)
  moreover have "unseen (insert initColor {}) colors = unseen {} colors"
    using colorStep_last[of self keep g2 "[0, 1]" "Suc 0" initState] by blast
  ultimately show ?thesis by simp
qed

text \<open>
  C5 as stated fails: in the first iteration on the two-site graph, with the palette in
  its initial order, the site gets the last palette colour, not the first one that its
  neighbour leaves free.
\<close>

theorem colorStep_last_counterexample:
  "col (colorStep self keep g2 [0, 1] (Suc 0) initState) 1 \<noteq>
   hd (unseen ((\<lambda>n. col initState (self n)) ` neighbors g2 (self ([0, 1] ! Suc 0)))
         (keep (Suc 0) (pal (initState :: int cstate))))"
  by (simp add: colorStep_eq Let_def unseen_def initState_def g2_nb colors_def initColor_def
      self_def keep_def)

lemma colorStep_frame:
  "nn (stack ! i) \<noteq> s \<Longrightarrow>
     col (colorStep nn shuffle al stack i st) s = col st s \<and>
     filter (\<lambda>w. fst w = s) (writes (colorStep nn shuffle al stack i st)) =
       filter (\<lambda>w. fst w = s) (writes st)"
  by (simp add: colorStep_eq Let_def)

lemma colorLoop_frame:
  "\<forall>i<j. nn (stack ! i) \<noteq> s \<Longrightarrow>
     col (colorLoop nn shuffle al stack j st) s = col st s \<and>
     filter (\<lambda>w. fst w = s) (writes (colorLoop nn shuffle al stack j st)) =
       filter (\<lambda>w. fst w = s) (writes st)"
proof (induction j arbitrary: st)
  case 0
  then show ?case by simp
next
  case (Suc j)
  then have "nn (stack ! j) \<noteq> s" and "\<forall>i<j. nn (stack ! i) \<noteq> s" by simp_all
  with Suc.IH[of "colorStep nn shuffle al stack j st"] colorStep_frame[of nn stack j s shuffle al st]
  show ?case by simp
qed

text \<open>
  C10. Let every \<open>range\<close> over the adjacency map deliver exactly its keys and let
  the nearest site of every key be the site with these coordinates. A site whose
  coordinates are not a key of the adjacency map is not assigned to by a run of
  \<open>colorPoints\<close> from the state that \<open>main\<close> sets up, and has the colour
  \<open>RGBA(0,0,0,255)\<close> after it, which is not one of the palette.
\<close>

theorem colorPoints_frame:
  assumes ok: "orders_ok al os" and nn: "\<forall>k\<in>dom al. nn k = k"
    and run: "colorPoints nn shuffle os al initState = Some st'"
    and out: "s \<notin> dom al"
  shows "col st' s = RGBA 0 0 0 255 \<and> RGBA 0 0 0 255 \<notin> set colors \<and> s \<notin> fst ` set (writes st')"
proof -
  from run obtain stack where st: "enStack os al {} = Some stack"
    and st': "st' = colorLoop nn shuffle al stack (length stack) initState"
    by (auto simp: colorPoints_def split: option.splits)
  have sub: "set stack \<subseteq> dom al" using ok st by (rule enStack_subset)
  have "\<forall>i<length stack. nn (stack ! i) \<noteq> s"
  proof (intro allI impI)
    fix i assume "i < length stack"
    then have "stack ! i \<in> dom al" using sub by (meson nth_mem subsetD)
    with nn out show "nn (stack ! i) \<noteq> s" by auto
  qed
  from colorLoop_frame[OF this, of shuffle al initState]
  have c: "col st' s = col initState s"
    and w: "filter (\<lambda>w. fst w = s) (writes st') = filter (\<lambda>w. fst w = s) (writes initState)"
    unfolding st' by simp_all
  from w have "filter (\<lambda>w. fst w = s) (writes st') = []" by (simp add: initState_def)
  then have "s \<notin> fst ` set (writes st')" by (auto simp: filter_empty_conv)
  moreover have "col st' s = RGBA 0 0 0 255" using c by (simp add: initState_def initColor_def)
  moreover have "RGBA 0 0 0 255 \<notin> set colors" using init_not_palette by (simp add: initColor_def)
  ultimately show ?thesis by simp
qed

theorem colorPoints_frame_witness:
  "orders_ok g2 os2 \<and> (2::int) \<notin> dom g2 \<and>
   (\<exists>st'. colorPoints self keep os2 g2 initState = Some st' \<and>
       col st' 2 = RGBA 0 0 0 255 \<and> 2 \<notin> fst ` set (writes st'))"
proof -
  obtain st' where run: "colorPoints self keep os2 g2 initState = Some st'"
    using g2_colors by blast
  have nn: "\<forall>k\<in>dom g2. self k = k" by (simp add: self_def)
  have out: "(2::int) \<notin> dom g2" by (simp add: g2_dom)
  from colorPoints_frame[OF orders_ok_g2(1) nn run out] run out orders_ok_g2(1)
  show ?thesis by blast
qed

text \<open>With a single site \<open>main\<close> never calls \<open>drawNear\<close>, the adjacency map is
  empty and \<open>colorPoints\<close> changes nothing.\<close>

lemma single_site: "colorPoints nn shuffle [([], [])] Map.empty st = Some st"
  by (simp add: colorPoints_def)

text \<open>
  C3 (amended). When every colour of the shuffled palette is among the colours of the
  site's neighbours, \<open>colorPoints\<close> raises nothing: the iteration leaves the site's
  colour and the write log as they are and the loop goes on. On a symmetric, loop-free,
  finite and 5-degenerate graph, under the conditions of C1, this does not happen:
  \<open>colorPoints\<close> returns and every site of the graph has a palette colour.
\<close>

theorem colorStep_exhausted:
  "(unseen ((\<lambda>n. col s (nn n)) ` neighbors al (nn (stack ! i))) (shuffle i (pal s)) = [] \<longrightarrow>
      colorStep nn shuffle al stack i s = s\<lparr>pal := shuffle i (pal s)\<rparr>) \<and>
   (symmetric g \<and> (\<forall>k. k \<notin> neighbors g k) \<and> finite (dom g) \<and> degenerate g \<and>
    orders_ok g os \<and> os \<noteq> [] \<and> card (dom g) \<le> length os \<and> (\<forall>k\<in>dom g. nn k = k) \<and>
    (\<forall>i cs. mset (shuffle i cs) = mset cs) \<and> set (pal st) = set colors \<and>
    (\<forall>k\<in>dom g. col st k \<notin> set colors) \<longrightarrow>
      (\<exists>st'. colorPoints nn shuffle os g st = Some st' \<and> (\<forall>k\<in>dom g. col st' k \<in> set colors)))"
proof (intro conjI impI)
  assume "unseen ((\<lambda>n. col s (nn n)) ` neighbors al (nn (stack ! i))) (shuffle i (pal s)) = []"
  then show "colorStep nn shuffle al stack i s = s\<lparr>pal := shuffle i (pal s)\<rparr>"
    by (simp add: colorStep_eq Let_def)
next
  assume h: "symmetric g \<and> (\<forall>k. k \<notin> neighbors g k) \<and> finite (dom g) \<and> degenerate g \<and>
    orders_ok g os \<and> os \<noteq> [] \<and> card (dom g) \<le> length os \<and> (\<forall>k\<in>dom g. nn k = k) \<and>
    (\<forall>i cs. mset (shuffle i cs) = mset cs) \<and> set (pal st) = set colors \<and>
    (\<forall>k\<in>dom g. col st k \<notin> set colors)"
  then have sym: "symmetric g" and nsl: "\<forall>k. k \<notin> neighbors g k" and fin: "finite (dom g)"
    and dg: "degenerate g" and ok: "orders_ok g os" and ne: "os \<noteq> []"
    and len: "card (dom g) \<le> length os" and nn: "\<forall>k\<in>dom g. nn k = k"
    and sh: "\<forall>i cs. mset (shuffle i cs) = mset cs" and pal0: "set (pal st) = set colors"
    and col0: "\<forall>k\<in>dom g. col st k \<notin> set colors"
    by simp_all
  from colorPoints_inv[OF sym nsl fin dg ok ne len nn sh pal0 col0] obtain stack st' where
    s: "set stack = dom g" "colorPoints nn shuffle os g st = Some st'" "coloring_inv g stack 0 st'"
    by blast
  from s(3) have "\<forall>k\<in>set (drop 0 stack). col st' k \<in> set colors"
    unfolding coloring_inv_def by blast
  with s(1) have "\<forall>k\<in>dom g. col st' k \<in> set colors" by simp
  with s(2) show "\<exists>st'. colorPoints nn shuffle os g st = Some st' \<and> (\<forall>k\<in>dom g. col st' k \<in> set colors)"
    by blast
qed

lemma exhausted7_unseen:
  "unseen ((\<lambda>n. col exhausted7 (self n)) ` neighbors k7 (self (up7 ! 0))) (keep 0 (pal exhausted7)) = []"
  by (simp add: unseen_def exhausted7_def k7_nb up7_def self_def keep_def colors_def)

theorem colorStep_exhausted_witness:
  "colorStep self keep k7 up7 0 exhausted7 = exhausted7 \<and>
   (\<exists>st'. colorPoints self keep os2 g2 initState = Some st' \<and>
      col st' 0 \<in> set colors \<and> col st' 1 \<in> set colors)"
proof -
  note t = colorStep_exhausted[of exhausted7 self k7 up7 0 keep g2 os2 initState]
  have "colorStep self keep k7 up7 0 exhausted7 = exhausted7\<lparr>pal := keep 0 (pal exhausted7)\<rparr>"
    using t exhausted7_unseen by blast
  then have a: "colorStep self keep k7 up7 0 exhausted7 = exhausted7" by (simp add: keep_def)
  have "\<forall>k. k \<notin> neighbors g2 k" by (simp add: g2_nb)
  moreover have "finite (dom g2)" by (simp add: g2_dom)
  moreover have "os2 \<noteq> []" by (simp add: os2_def)
  moreover have "card (dom g2) \<le> length os2" by (simp add: g2_dom os2_def)
  moreover have "\<forall>k\<in>dom g2. self k = k" by (simp add: self_def)
  moreover note symmetric_g2 degenerate_g2 orders_ok_g2(1) keep_perm
    initState_ok(1)[where 'k = int] initState_ok(2)[where 'k = int and S = "dom g2"]
  ultimately have "\<exists>st'. colorPoints self keep os2 g2 initState = Some st' \<and>
      (\<forall>k\<in>dom g2. col st' k \<in> set colors)"
    using t by blast
  then have "\<exists>st'. colorPoints self keep os2 g2 initState = Some st' \<and>
      col st' 0 \<in> set colors \<and> col st' 1 \<in> set colors"
    by (simp add: g2_dom)
  with a show ?thesis by simp
qed

text \<open>
  C3 as stated fails: on seven mutually adjacent sites \<open>colorPoints\<close> returns normally
  although all six palette colours are among the colours of the neighbours of site 0,
  and site 0 is left with its initial colour.
\<close>

theorem colorStep_exhausted_counterexample:
  "symmetric k7 \<and> orders_ok k7 os7 \<and>
   map_option (\<lambda>s. (col s 0, set colors \<subseteq> col s ` neighbors k7 0))
     (colorPoints self keep os7 k7 initState) = Some (initColor, True)"
proof -
  have "symmetric k7" unfolding k7_def by (rule symmetric_complete)
  moreover have "orders_ok k7 os7" by (auto simp: orders_ok_def os7_def up7_def k7_dom)
  moreover obtain s where s: "colorPoints self keep os7 k7 initState = Some s"
    "col s 0 = initColor" "col s 1 = RGBA 155 17 30 255" "col s 2 = RGBA 190 83 28 255"
    "col s 3 = RGBA 241 196 0 255" "col s 4 = RGBA 19 104 67 255"
    "col s 5 = RGBA 135 206 235 255" "col s 6 = RGBA 89 49 95 255"
    using k7_colors by (cases "colorPoints self keep os7 k7 initState") auto
  then have "set colors \<subseteq> col s ` neighbors k7 0" by (simp add: k7_nb colors_def)
  ultimately show ?thesis using s(1) s(2) by simp
qed

text \<open>
  C4 (amended). The elimination order and the colouring depend on the orders in which
  the runtime ranges over the adjacency map, which the seed does not determine. On a
  finite, symmetric, 5-degenerate graph any two runs of \<open>enStack\<close> return, and the
  two elimination orders are permutations of each other.
\<close>

theorem enStack_orders:
  assumes fin: "finite (dom l)" and sym: "symmetric l" and dg: "degenerate l"
    and ok1: "orders_ok l osA" and ne1: "osA \<noteq> []" and len1: "card (dom l) \<le> length osA"
    and ok2: "orders_ok l osB" and ne2: "osB \<noteq> []" and len2: "card (dom l) \<le> length osB"
  shows "\<exists>o1 o2. enStack osA l {} = Some o1 \<and> enStack osB l {} = Some o2 \<and> mset o1 = mset o2"
proof -
  from enStack_total[OF fin sym dg ok1 ne1 len1] obtain o1 where
    o1: "enStack osA l {} = Some o1" "distinct o1" "set o1 = dom l" by blast
  from enStack_total[OF fin sym dg ok2 ne2 len2] obtain o2 where
    o2: "enStack osB l {} = Some o2" "distinct o2" "set o2 = dom l" by blast
  have "set o1 = set o2" using o1(3) o2(3) by simp
  then have "mset o1 = mset o2" using set_eq_iff_mset_eq_distinct[OF o1(2) o2(2)] by blast
  with o1(1) o2(1) show ?thesis by blast
qed

theorem enStack_orders_witness:
  "finite (dom g2) \<and> symmetric g2 \<and> degenerate g2 \<and> orders_ok g2 os2 \<and> orders_ok g2 os2r \<and>
   (\<exists>o1 o2. enStack os2 g2 {} = Some o1 \<and> enStack os2r g2 {} = Some o2 \<and> mset o1 = mset o2)"
proof -
  have fin: "finite (dom g2)" by (simp add: g2_dom)
  have ne: "os2 \<noteq> []" "os2r \<noteq> []" by (simp_all add: os2_def os2r_def)
  have len: "card (dom g2) \<le> length os2" "card (dom g2) \<le> length os2r"
    by (simp_all add: g2_dom os2_def os2r_def)
  from enStack_orders[OF fin symmetric_g2 degenerate_g2 orders_ok_g2(1) ne(1) len(1)
      orders_ok_g2(2) ne(2) len(2)]
  show ?thesis using fin symmetric_g2 degenerate_g2 orders_ok_g2 by simp
qed

lemma g2_colors_r:
  "map_option (\<lambda>s. (col s 0, col s 1)) (colorPoints self keep os2r g2 initState) =
     Some (RGBA 89 49 95 255, RGBA 135 206 235 255)"
  by (simp add: colorPoints_def g2_stack_r colorStep_def Let_def initState_def g2_nb colors_def
      initColor_def self_def keep_def)

text \<open>
  C4 as stated fails: on the same two-site graph, with the same shuffles, two iteration
  orders give two different elimination orders and two different colourings.
\<close>

theorem enStack_orders_counterexample:
  "orders_ok g2 os2 \<and> orders_ok g2 os2r \<and>
   enStack os2 g2 {} = Some [0, 1] \<and> enStack os2r g2 {} = Some [1, 0] \<and>
   map_option (\<lambda>s. (col s 0, col s 1)) (colorPoints self keep os2 g2 initState) =
     Some (RGBA 135 206 235 255, RGBA 89 49 95 255) \<and>
   map_option (\<lambda>s. (col s 0, col s 1)) (colorPoints self keep os2r g2 initState) =
     Some (RGBA 89 49 95 255, RGBA 135 206 235 255)"
  by (simp add: orders_ok_g2 g2_stack g2_stack_r g2_colors g2_colors_r)

end
